theory Spec2Isabelle
  imports Main "HOL-Library.Monad_Syntax"
begin

section \<open>Items of the feed tree\<close>

text \<open>
  The feed tree of \<^verbatim>\<open>src/core/feedsmodel.cpp\<close> is a graph of heap objects of class
  \<^verbatim>\<open>RootItem\<close>, linked by raw pointers. A pointer is modelled as \<open>nat option\<close>:
  \<open>None\<close> is \<^verbatim>\<open>nullptr\<close>, \<open>Some p\<close> is the address \<open>p\<close>. The heap is a map from
  addresses to objects; an address outside its domain is a dangling pointer. Every
  function that dereferences a pointer returns an \<open>option\<close>, and \<open>None\<close> is the
  undefined behaviour of dereferencing a null or dangling pointer (or a loop that
  never ends).
\<close>

text \<open>
  Modelled from the spec: class \<^verbatim>\<open>RootItem\<close> (services/abstract/rootitem.h) and
  class \<^verbatim>\<open>Feed\<close> are not part of the sources. Section 3 of the specification gives
  an item a kind (root, service root, category, feed or recycle bin), an
  unread-message count, an ordered sequence of children and a back-reference to its
  parent; a feed has a status, of which the model reads \<^verbatim>\<open>Feed::NewMessages\<close>.
\<close>

datatype RootItemKind = Root | Bin | Feed | Category | ServiceRoot

datatype FeedStatus = Normal | NewMessages | NetworkError

record RootItem =
  kind :: RootItemKind
  m_parentItem :: "nat option"
  m_childItems :: "nat list"
  m_unreadCount :: int
  m_status :: FeedStatus

text \<open>
  \<^verbatim>\<open>QModelIndex\<close> of the GUI toolkit: row, column, internal pointer and the model that
  created it. The default-constructed index is the invalid one.
\<close>

record QModelIndex =
  row :: int
  column :: int
  internalPointer :: "nat option"
  model :: "nat option"

definition QModelIndex_null :: QModelIndex where
  "QModelIndex_null = \<lparr>row = - 1, column = - 1, internalPointer = None, model = None\<rparr>"

definition isValid :: "QModelIndex \<Rightarrow> bool" where
  "isValid i \<longleftrightarrow> 0 \<le> row i \<and> 0 \<le> column i \<and> model i \<noteq> None"

datatype signal =
    dataChanged QModelIndex QModelIndex
  | layoutAboutToBeChanged
  | layoutChanged
  | messageCountsChanged int bool
  | requireItemValidationAfterDragDrop QModelIndex
  | showGuiMessage

text \<open>
  The state of a \<^verbatim>\<open>FeedsModel\<close>: its own identity (what \<^verbatim>\<open>index.model() == this\<close>
  compares with), the root item created by the constructor, the heap of items, and
  the signals emitted so far.
\<close>

record FeedsModel =
  model_id :: nat
  m_rootItem :: nat
  items :: "nat \<Rightarrow> RootItem option"
  emitted :: "signal list"

definition emit :: "signal \<Rightarrow> FeedsModel \<Rightarrow> FeedsModel" where
  "emit s m = m\<lparr>emitted := emitted m @ [s]\<rparr>"

definition deref :: "FeedsModel \<Rightarrow> nat option \<Rightarrow> RootItem option" where
  "deref m p = (case p of None \<Rightarrow> None | Some a \<Rightarrow> items m a)"

definition createIndex :: "FeedsModel \<Rightarrow> int \<Rightarrow> int \<Rightarrow> nat option \<Rightarrow> QModelIndex" where
  "createIndex m r c p = \<lparr>row = r, column = c, internalPointer = p, model = Some (model_id m)\<rparr>"

text \<open>
  Modelled from the spec: the constants of definitions/definitions.h are not part of
  the sources. Section 3: column 0 is the title column, column 1 the counts column,
  and there are no others.
\<close>

definition FDS_MODEL_TITLE_INDEX :: int where
  "FDS_MODEL_TITLE_INDEX = 0"

definition FDS_MODEL_COUNTS_INDEX :: int where
  "FDS_MODEL_COUNTS_INDEX = 1"

definition FEEDS_VIEW_COLUMN_COUNT :: int where
  "FEEDS_VIEW_COLUMN_COUNT = 2"

subsection \<open>Methods of RootItem used by the model\<close>

text \<open>Modelled from the spec: \<^verbatim>\<open>RootItem::childCount\<close>, the number of children.\<close>

definition childCount :: "RootItem \<Rightarrow> int" where
  "childCount it = int (length (m_childItems it))"

text \<open>
  Modelled from the spec: \<^verbatim>\<open>RootItem::child(row)\<close>, child enumeration; a row out of
  range gives the null pointer, which \<^verbatim>\<open>FeedsModel::index\<close> tests for.
\<close>

definition child :: "RootItem \<Rightarrow> int \<Rightarrow> nat option" where
  "child it r = (if 0 \<le> r \<and> r < int (length (m_childItems it))
                 then Some (m_childItems it ! nat r) else None)"

text \<open>\<^verbatim>\<open>QList::indexOf\<close>: the position of the first occurrence, or -1.\<close>

primrec indexOf :: "'a list \<Rightarrow> 'a \<Rightarrow> int" where
  "indexOf [] x = - 1"
| "indexOf (y # ys) x =
     (if y = x then 0 else (let i = indexOf ys x in if i < 0 then - 1 else i + 1))"

text \<open>
  Modelled from the spec: \<^verbatim>\<open>RootItem::row()\<close>, the index-of-child lookup of an item
  in its parent; an item without a parent has row 0.
\<close>

definition row_of :: "FeedsModel \<Rightarrow> nat \<Rightarrow> int option" where
  "row_of m p = do {
     it \<leftarrow> items m p;
     case m_parentItem it of
       None \<Rightarrow> Some 0
     | Some q \<Rightarrow> do { qt \<leftarrow> items m q; Some (indexOf (m_childItems qt) p) }
   }"

section \<open>The model: coordinates\<close>

definition itemForIndex :: "FeedsModel \<Rightarrow> QModelIndex \<Rightarrow> nat option" where
  "itemForIndex m index =
     (if isValid index \<and> model index = Some (model_id m)
      then internalPointer index
      else Some (m_rootItem m))"

definition columnCount :: "FeedsModel \<Rightarrow> QModelIndex \<Rightarrow> int" where
  "columnCount m parent = FEEDS_VIEW_COLUMN_COUNT"

definition rowCount :: "FeedsModel \<Rightarrow> QModelIndex \<Rightarrow> int option" where
  "rowCount m parent =
     (if column parent > 0 then Some 0
      else do { it \<leftarrow> deref m (itemForIndex m parent); Some (childCount it) })"

text \<open>\<^verbatim>\<open>QAbstractItemModel::hasIndex\<close> of the toolkit.\<close>

definition hasIndex :: "FeedsModel \<Rightarrow> int \<Rightarrow> int \<Rightarrow> QModelIndex \<Rightarrow> bool option" where
  "hasIndex m r c parent =
     (if r < 0 \<or> c < 0 then Some False
      else do { n \<leftarrow> rowCount m parent; Some (r < n \<and> c < columnCount m parent) })"

definition index :: "FeedsModel \<Rightarrow> int \<Rightarrow> int \<Rightarrow> QModelIndex \<Rightarrow> QModelIndex option" where
  "index m r c parent = do {
     ok \<leftarrow> hasIndex m r c parent;
     if \<not> ok then Some QModelIndex_null
     else do {
       parent_item \<leftarrow> deref m (itemForIndex m parent);
       case child parent_item r of
         Some child_item \<Rightarrow> Some (createIndex m r c (Some child_item))
       | None \<Rightarrow> Some QModelIndex_null
     }
   }"

definition parent :: "FeedsModel \<Rightarrow> QModelIndex \<Rightarrow> QModelIndex option" where
  "parent m child_index =
     (if \<not> isValid child_index then Some QModelIndex_null
      else do {
        child_item \<leftarrow> deref m (itemForIndex m child_index);
        case m_parentItem child_item of
          None \<Rightarrow> None
        | Some parent_item \<Rightarrow>
            if parent_item = m_rootItem m then Some QModelIndex_null
            else do { r \<leftarrow> row_of m parent_item; Some (createIndex m r 0 (Some parent_item)) }
      })"

text \<open>
  \<^verbatim>\<open>QModelIndex::parent()\<close> of the toolkit asks the index's own model. An index of
  no model has the invalid parent; what another model answers is outside this
  development, so the result is undefined there.
\<close>

definition index_parent :: "FeedsModel \<Rightarrow> QModelIndex \<Rightarrow> QModelIndex option" where
  "index_parent m i =
     (case model i of
        None \<Rightarrow> Some QModelIndex_null
      | Some mid \<Rightarrow> if mid = model_id m then parent m i else None)"

text \<open>
  The first loop of \<^verbatim>\<open>indexForItem\<close>: push the item and go to its parent until the
  root kind is met. The stack is a list with its top at the head.
\<close>

partial_function (option) walk_chain :: "FeedsModel \<Rightarrow> nat option \<Rightarrow> nat list \<Rightarrow> nat list option" where
  "walk_chain m item chain =
     (case item of
        None \<Rightarrow> None
      | Some p \<Rightarrow>
          (case items m p of
             None \<Rightarrow> None
           | Some it \<Rightarrow>
               if kind it \<noteq> Root then walk_chain m (m_parentItem it) (p # chain)
               else Some chain))"

declare walk_chain.simps [code]

text \<open>The second loop: pop each item and descend into its row below the index so far.\<close>

fun descend :: "FeedsModel \<Rightarrow> nat list \<Rightarrow> QModelIndex \<Rightarrow> QModelIndex option" where
  "descend m [] target_index = Some target_index"
| "descend m (parent_item # chain) target_index = do {
     it \<leftarrow> items m parent_item;
     pit \<leftarrow> deref m (m_parentItem it);
     next_index \<leftarrow> index m (indexOf (m_childItems pit) parent_item) 0 target_index;
     descend m chain next_index
   }"

partial_function (option) indexForItem :: "FeedsModel \<Rightarrow> nat option \<Rightarrow> QModelIndex option" where
  "indexForItem m item =
     (case item of
        None \<Rightarrow> Some QModelIndex_null
      | Some p \<Rightarrow>
          (case items m p of
             None \<Rightarrow> None
           | Some it \<Rightarrow>
               if kind it = Root then Some QModelIndex_null
               else do {
                 chain \<leftarrow> walk_chain m item [];
                 target_index \<leftarrow> indexForItem m (Some (m_rootItem m));
                 descend m chain target_index
               }))"

declare indexForItem.simps [code]

section \<open>The model: drag and drop\<close>

text \<open>
  The payload of a drag is the byte array stored under \<^verbatim>\<open>MIME_TYPE_ITEM_POINTER\<close>,
  a sequence of \<^verbatim>\<open>quintptr\<close> values written and read through a \<^verbatim>\<open>QDataStream\<close>. It
  is modelled as the list of these values, each one a pointer; the empty list is the
  empty byte array.
\<close>

fun mimeData :: "FeedsModel \<Rightarrow> QModelIndex list \<Rightarrow> nat option list option" where
  "mimeData m [] = Some []"
| "mimeData m (indx # indexes) =
     (if column indx \<noteq> 0 then mimeData m indexes
      else do {
        let item_for_index = itemForIndex m indx;
        it \<leftarrow> deref m item_for_index;
        encoded_data \<leftarrow> mimeData m indexes;
        Some (if kind it \<noteq> Root then item_for_index # encoded_data else encoded_data)
      })"

datatype DropAction = CopyAction | MoveAction | LinkAction | TargetMoveAction | IgnoreAction

definition supportedDropActions :: "FeedsModel \<Rightarrow> DropAction" where
  "supportedDropActions m = MoveAction"

text \<open>
  Modelled from the spec: \<^verbatim>\<open>RootItem::getParentServiceRoot\<close> is not part of the
  sources. The account of an item is the service root met on the way up from the item
  (the item itself when it is a service root); the root item has none.
\<close>

partial_function (option) getParentServiceRoot :: "FeedsModel \<Rightarrow> nat option \<Rightarrow> nat option option" where
  "getParentServiceRoot m working_parent =
     (case working_parent of
        None \<Rightarrow> None
      | Some p \<Rightarrow>
          (case items m p of
             None \<Rightarrow> None
           | Some it \<Rightarrow>
               if kind it = Root then Some None
               else if kind it = ServiceRoot then Some (Some p)
               else getParentServiceRoot m (m_parentItem it)))"

declare getParentServiceRoot.simps [code]

text \<open>
  Modelled from the spec: \<^verbatim>\<open>RootItem::performDragDropChange\<close> and its overrides are
  not part of the sources. Section 4.1: the destination must be a legal container for
  the kind of the moved item (a feed or a category lives under a category or a service
  root), it must not be the moved item or one of its descendants, and it must not be
  the current parent; on success the item is detached from the child sequence of its
  original parent and appended to the child sequence of the destination.
\<close>

definition legal_container :: "RootItemKind \<Rightarrow> RootItemKind \<Rightarrow> bool" where
  "legal_container moved destination \<longleftrightarrow>
     (moved = Feed \<or> moved = Category) \<and> (destination = Category \<or> destination = ServiceRoot)"

partial_function (option) has_ancestor :: "FeedsModel \<Rightarrow> nat \<Rightarrow> nat option \<Rightarrow> bool option" where
  "has_ancestor m a item =
     (case item of
        None \<Rightarrow> Some False
      | Some p \<Rightarrow>
          if p = a then Some True
          else (case items m p of
                  None \<Rightarrow> None
                | Some it \<Rightarrow> has_ancestor m a (m_parentItem it)))"

declare has_ancestor.simps [code]

text \<open>
  Modelled from the spec: \<^verbatim>\<open>RootItem::removeChild\<close> and \<^verbatim>\<open>RootItem::appendChild\<close>,
  removal by identity and ordered append; the appended child gets the new parent as
  its back-reference.
\<close>

definition removeChild :: "nat \<Rightarrow> nat \<Rightarrow> FeedsModel \<Rightarrow> FeedsModel option" where
  "removeChild q c m = do {
     qt \<leftarrow> items m q;
     Some (m\<lparr>items := (items m)(q \<mapsto> qt\<lparr>m_childItems := removeAll c (m_childItems qt)\<rparr>)\<rparr>)
   }"

definition appendChild :: "nat \<Rightarrow> nat \<Rightarrow> FeedsModel \<Rightarrow> FeedsModel option" where
  "appendChild q c m = do {
     qt \<leftarrow> items m q;
     let m1 = m\<lparr>items := (items m)(q \<mapsto> qt\<lparr>m_childItems := m_childItems qt @ [c]\<rparr>)\<rparr>;
     ct \<leftarrow> items m1 c;
     Some (m1\<lparr>items := (items m1)(c \<mapsto> ct\<lparr>m_parentItem := Some q\<rparr>)\<rparr>)
   }"

definition performDragDropChange :: "FeedsModel \<Rightarrow> nat option \<Rightarrow> nat option \<Rightarrow> (bool \<times> FeedsModel) option" where
  "performDragDropChange m item target_item =
     (case (item, target_item) of
        (Some p, Some d) \<Rightarrow> do {
          it \<leftarrow> items m p;
          target \<leftarrow> items m d;
          below \<leftarrow> has_ancestor m p target_item;
          if \<not> legal_container (kind it) (kind target) \<or> below \<or> m_parentItem it = target_item
          then Some (False, m)
          else do {
            m1 \<leftarrow> (case m_parentItem it of None \<Rightarrow> Some m | Some q \<Rightarrow> removeChild q p m);
            m2 \<leftarrow> appendChild d p m1;
            Some (True, m2)
          }
        }
      | _ \<Rightarrow> None)"

text \<open>The loop of \<^verbatim>\<open>dropMimeData\<close> over the tokens read from the stream.\<close>

fun drop_loop :: "FeedsModel \<Rightarrow> nat option list \<Rightarrow> QModelIndex \<Rightarrow> (bool \<times> FeedsModel) option" where
  "drop_loop m [] parent_index = Some (True, m)"
| "drop_loop m (pointer_to_item # stream) parent_index = do {
     let dragged_item = pointer_to_item;
     let target_item = itemForIndex m parent_index;
     dragged_item_root \<leftarrow> getParentServiceRoot m dragged_item;
     target_item_root \<leftarrow> getParentServiceRoot m target_item;
     dragged \<leftarrow> deref m dragged_item;
     if dragged_item = target_item \<or> m_parentItem dragged = target_item then Some (False, m)
     else if dragged_item_root \<noteq> target_item_root then Some (False, emit showGuiMessage m)
     else do {
       (moved, m1) \<leftarrow> performDragDropChange m dragged_item target_item;
       m2 \<leftarrow> (if moved
               then do { i \<leftarrow> indexForItem m1 dragged_item;
                         Some (emit (requireItemValidationAfterDragDrop i) m1) }
               else Some m1);
       drop_loop m2 stream parent_index
     }
   }"

definition dropMimeData ::
    "FeedsModel \<Rightarrow> nat option list \<Rightarrow> DropAction \<Rightarrow> int \<Rightarrow> int \<Rightarrow> QModelIndex \<Rightarrow> (bool \<times> FeedsModel) option" where
  "dropMimeData m data action r c parent_index =
     (if action = IgnoreAction then Some (True, m)
      else if action \<noteq> MoveAction then Some (False, m)
      else (let dragged_items_data = data in
            if dragged_items_data = [] then Some (False, m)
            else drop_loop m dragged_items_data parent_index))"

section \<open>The model: change notification\<close>

text \<open>
  Modelled from the spec: \<^verbatim>\<open>RootItem::getSubTreeFeeds\<close> is not part of the sources;
  it lists the feeds of the subtree of an item. The traversal keeps a list of items
  still to visit.
\<close>

partial_function (option) getSubTreeFeeds_loop :: "FeedsModel \<Rightarrow> nat list \<Rightarrow> nat list \<Rightarrow> nat list option" where
  "getSubTreeFeeds_loop m traversable_items children =
     (case traversable_items of
        [] \<Rightarrow> Some children
      | active_item # rest \<Rightarrow>
          (case items m active_item of
             None \<Rightarrow> None
           | Some it \<Rightarrow>
               if kind it = Feed then getSubTreeFeeds_loop m rest (children @ [active_item])
               else getSubTreeFeeds_loop m (m_childItems it @ rest) children))"

declare getSubTreeFeeds_loop.simps [code]

definition getSubTreeFeeds :: "FeedsModel \<Rightarrow> nat \<Rightarrow> nat list option" where
  "getSubTreeFeeds m p = getSubTreeFeeds_loop m [p] []"

text \<open>
  Modelled from the spec: \<^verbatim>\<open>RootItem::countOfUnreadMessages\<close> and its overrides are
  not part of the sources. Section 4.1: a feed holds its own count, and the count of
  any other item is the sum of the counts of its children.
\<close>

partial_function (option) countOfUnreadMessages_loop :: "FeedsModel \<Rightarrow> nat list \<Rightarrow> int \<Rightarrow> int option" where
  "countOfUnreadMessages_loop m pending total_count =
     (case pending of
        [] \<Rightarrow> Some total_count
      | child_item # rest \<Rightarrow>
          (case items m child_item of
             None \<Rightarrow> None
           | Some it \<Rightarrow>
               if kind it = Feed then countOfUnreadMessages_loop m rest (total_count + m_unreadCount it)
               else countOfUnreadMessages_loop m (m_childItems it @ rest) total_count))"

declare countOfUnreadMessages_loop.simps [code]

definition item_countOfUnreadMessages :: "FeedsModel \<Rightarrow> nat \<Rightarrow> int option" where
  "item_countOfUnreadMessages m p = countOfUnreadMessages_loop m [p] 0"

definition countOfUnreadMessages :: "FeedsModel \<Rightarrow> int option" where
  "countOfUnreadMessages m = item_countOfUnreadMessages m (m_rootItem m)"

fun any_new_messages :: "FeedsModel \<Rightarrow> nat list \<Rightarrow> bool option" where
  "any_new_messages m [] = Some False"
| "any_new_messages m (feed # feeds) = do {
     it \<leftarrow> items m feed;
     if m_status it = NewMessages then Some True else any_new_messages m feeds
   }"

definition hasAnyFeedNewMessages :: "FeedsModel \<Rightarrow> bool option" where
  "hasAnyFeedNewMessages m = do {
     feeds \<leftarrow> getSubTreeFeeds m (m_rootItem m);
     any_new_messages m feeds
   }"

definition notifyWithCounts :: "FeedsModel \<Rightarrow> FeedsModel option" where
  "notifyWithCounts m = do {
     unread \<leftarrow> countOfUnreadMessages m;
     new_messages \<leftarrow> hasAnyFeedNewMessages m;
     Some (emit (messageCountsChanged unread new_messages) m)
   }"

definition reloadWholeLayout :: "FeedsModel \<Rightarrow> FeedsModel" where
  "reloadWholeLayout m = emit layoutChanged (emit layoutAboutToBeChanged m)"

partial_function (option) reloadChangedLayout :: "FeedsModel \<Rightarrow> QModelIndex list \<Rightarrow> FeedsModel option" where
  "reloadChangedLayout m list =
     (case list of
        [] \<Rightarrow> Some m
      | indx # rest \<Rightarrow>
          if isValid indx then do {
            indx_parent \<leftarrow> index_parent m indx;
            top_left \<leftarrow> index m (row indx) 0 indx_parent;
            bottom_right \<leftarrow> index m (row indx) FDS_MODEL_COUNTS_INDEX indx_parent;
            reloadChangedLayout (emit (dataChanged top_left bottom_right) m) (rest @ [indx_parent])
          }
          else reloadChangedLayout m rest)"

declare reloadChangedLayout.simps [code]

definition reloadChangedItem :: "FeedsModel \<Rightarrow> nat option \<Rightarrow> FeedsModel option" where
  "reloadChangedItem m item = do {
     index_item \<leftarrow> indexForItem m item;
     reloadChangedLayout m [index_item]
   }"

fun reload_each :: "FeedsModel \<Rightarrow> nat option list \<Rightarrow> FeedsModel option" where
  "reload_each m [] = Some m"
| "reload_each m (item # rest) = do { m1 \<leftarrow> reloadChangedItem m item; reload_each m1 rest }"

text \<open>
  \<^verbatim>\<open>RELOAD_MODEL_BORDER_NUM\<close> is a constant of definitions/definitions.h, which is not
  part of the sources; it is the first argument.
\<close>

definition onItemDataChanged :: "int \<Rightarrow> FeedsModel \<Rightarrow> nat option list \<Rightarrow> FeedsModel option" where
  "onItemDataChanged RELOAD_MODEL_BORDER_NUM m changed = do {
     m1 \<leftarrow> (if int (length changed) > RELOAD_MODEL_BORDER_NUM
             then Some (reloadWholeLayout m)
             else reload_each m changed);
     notifyWithCounts m1
   }"

section \<open>The debug handler\<close>

text \<open>
  \<^verbatim>\<open>Debugging::debugHandler\<close> of \<^verbatim>\<open>src/core/debugging.cpp\<close>. Its body is compiled
  only when \<^verbatim>\<open>QT_NO_DEBUG_OUTPUT\<close> is not defined; the flag is the first argument.
  \<^verbatim>\<open>QtInfoMsg\<close> stands for the values of \<^verbatim>\<open>QtMsgType\<close> that the switch does not
  name and that reach its default branch. The effects are the lines written to
  stderr and the call of \<^verbatim>\<open>qApp->exit\<close>. A line is given by its type string, the
  text printed for the file, the line number and the message.
\<close>

datatype QtMsgType = QtDebugMsg | QtWarningMsg | QtCriticalMsg | QtFatalMsg | QtInfoMsg

datatype effect = fprintf_stderr string "string option" int string | qApp_exit int

definition EXIT_FAILURE :: int where
  "EXIT_FAILURE = 1"

text \<open>\<^verbatim>\<open>QString::section(sep, -1)\<close>: the text after the last separator.\<close>

definition section_last :: "char \<Rightarrow> string \<Rightarrow> string" where
  "section_last sep s = rev (takeWhile (\<lambda>c. c \<noteq> sep) (rev s))"

text \<open>
  Line 24 keeps the pointer that \<^verbatim>\<open>qPrintable\<close> returns into a temporary byte array.
  The temporary is destroyed at the end of that statement, so \<^verbatim>\<open>file\<close> dangles at
  every later \<^verbatim>\<open>fprintf\<close>, and the text printed for it is not determined by the
  program, whatever the section was: it is \<open>None\<close>. The \<^verbatim>\<open>qPrintable(message)\<close> of
  the macro is an argument of the \<^verbatim>\<open>fprintf\<close> call itself and lives until the call
  has returned.
\<close>

definition qPrintable_kept :: "string \<Rightarrow> string option" where
  "qPrintable_kept s = None"

definition DEBUG_OUTPUT_WORKER :: "string \<Rightarrow> string option \<Rightarrow> int \<Rightarrow> string \<Rightarrow> effect list" where
  "DEBUG_OUTPUT_WORKER type_string file line message = [fprintf_stderr type_string file line message]"

definition debugHandler :: "bool \<Rightarrow> char \<Rightarrow> QtMsgType \<Rightarrow> string \<Rightarrow> int \<Rightarrow> string \<Rightarrow> effect list" where
  "debugHandler QT_NO_DEBUG_OUTPUT separator type placement_file placement_line message =
     (if \<not> QT_NO_DEBUG_OUTPUT then
        (let file = qPrintable_kept (section_last separator placement_file) in
         case type of
           QtDebugMsg \<Rightarrow> DEBUG_OUTPUT_WORKER ''INFO'' file placement_line message
         | QtWarningMsg \<Rightarrow> DEBUG_OUTPUT_WORKER ''WARNING'' file placement_line message
         | QtCriticalMsg \<Rightarrow> DEBUG_OUTPUT_WORKER ''CRITICAL'' file placement_line message
         | QtFatalMsg \<Rightarrow> DEBUG_OUTPUT_WORKER ''FATAL'' file placement_line message @ [qApp_exit EXIT_FAILURE]
         | QtInfoMsg \<Rightarrow> [])
      else [])"

section \<open>Well-formed trees\<close>

text \<open>
  The invariants of Section 3 of the specification, stated against an explicit tree
  of addresses: the heap holds an item at every node, the child sequence of the item
  is the sequence of its subtrees, every child points back to its parent and is not
  of the root kind, a feed is a leaf, no item occurs twice, and the root of the tree
  is the root item of the model. The items currently attached to the tree are the
  nodes of this tree.
\<close>

datatype itree = Node (label: nat) (subtrees: "itree list")

fun nodes :: "itree \<Rightarrow> nat list" where
  "nodes (Node p ts) = p # concat (map nodes ts)"

fun shape :: "(nat \<Rightarrow> RootItem option) \<Rightarrow> itree \<Rightarrow> bool" where
  "shape h (Node p ts) =
     (case h p of
        None \<Rightarrow> False
      | Some it \<Rightarrow>
          m_childItems it = map label ts \<and> (kind it = Feed \<longrightarrow> ts = []) \<and>
          (\<forall>t \<in> set ts.
             (case h (label t) of
                None \<Rightarrow> False
              | Some ct \<Rightarrow> m_parentItem ct = Some p \<and> kind ct \<noteq> Root) \<and>
             shape h t))"

definition well_formed :: "FeedsModel \<Rightarrow> itree \<Rightarrow> bool" where
  "well_formed m t \<longleftrightarrow>
     label t = m_rootItem m \<and> shape (items m) t \<and> distinct (nodes t) \<and>
     (case items m (m_rootItem m) of
        None \<Rightarrow> False
      | Some r \<Rightarrow> kind r = Root \<and> m_parentItem r = None)"

text \<open>
  The chain of an item: the items on the way from the root item (excluded) down to
  the item (included), following the child sequences of the heap.
\<close>

inductive chain :: "FeedsModel \<Rightarrow> nat list \<Rightarrow> nat \<Rightarrow> bool" for m :: FeedsModel where
  chain_root: "chain m [] (m_rootItem m)"
| chain_child: "chain m xs q \<Longrightarrow> items m q = Some qt \<Longrightarrow> c \<in> set (m_childItems qt) \<Longrightarrow> chain m (xs @ [c]) c"

text \<open>The coordinate anchored at an item: its row in its parent, and its address.\<close>

definition anchored :: "FeedsModel \<Rightarrow> nat \<Rightarrow> int \<Rightarrow> QModelIndex" where
  "anchored m p c = createIndex m (the (row_of m p)) c (Some p)"

definition row_signal :: "FeedsModel \<Rightarrow> nat \<Rightarrow> signal" where
  "row_signal m p = dataChanged (anchored m p 0) (anchored m p FDS_MODEL_COUNTS_INDEX)"

text \<open>The coordinate of an item: the invalid index for the root item, column 0 of its row otherwise.\<close>

definition coordinate_of :: "FeedsModel \<Rightarrow> nat \<Rightarrow> QModelIndex" where
  "coordinate_of m p = (if p = m_rootItem m then QModelIndex_null else anchored m p 0)"

text \<open>The feeds of a tree, in the order of the traversal, and their unread counts.\<close>

definition is_feed :: "FeedsModel \<Rightarrow> nat \<Rightarrow> bool" where
  "is_feed m p \<longleftrightarrow> (case items m p of None \<Rightarrow> False | Some it \<Rightarrow> kind it = Feed)"

definition unread_of :: "FeedsModel \<Rightarrow> nat \<Rightarrow> int" where
  "unread_of m p = (case items m p of None \<Rightarrow> 0 | Some it \<Rightarrow> m_unreadCount it)"

definition has_new_messages :: "FeedsModel \<Rightarrow> nat \<Rightarrow> bool" where
  "has_new_messages m p \<longleftrightarrow> (case items m p of None \<Rightarrow> False | Some it \<Rightarrow> m_status it = NewMessages)"

text \<open>An item of a change set with its chain: the empty one for the null pointer.\<close>

definition chain_or_null :: "FeedsModel \<Rightarrow> nat option \<Rightarrow> nat list \<Rightarrow> bool" where
  "chain_or_null m item xs \<longleftrightarrow> (case item of None \<Rightarrow> xs = [] | Some c \<Rightarrow> chain m xs c)"

definition tree_feeds :: "FeedsModel \<Rightarrow> itree \<Rightarrow> nat list" where
  "tree_feeds m t = filter (is_feed m) (nodes t)"

definition total_unread :: "FeedsModel \<Rightarrow> itree \<Rightarrow> int" where
  "total_unread m t = sum_list (map (unread_of m) (tree_feeds m t))"

section \<open>An example tree\<close>

text \<open>
  The root item 10 holds the account 11, which holds the categories 12 and 13; feed 14
  lies in category 12 and feed 15 in category 13.
\<close>

definition example_items :: "nat \<Rightarrow> RootItem option" where
  "example_items = map_of
     [(10, \<lparr>kind = Root, m_parentItem = None, m_childItems = [11], m_unreadCount = 0, m_status = Normal\<rparr>),
      (11, \<lparr>kind = ServiceRoot, m_parentItem = Some 10, m_childItems = [12, 13], m_unreadCount = 0, m_status = Normal\<rparr>),
      (12, \<lparr>kind = Category, m_parentItem = Some 11, m_childItems = [14], m_unreadCount = 0, m_status = Normal\<rparr>),
      (13, \<lparr>kind = Category, m_parentItem = Some 11, m_childItems = [15], m_unreadCount = 0, m_status = Normal\<rparr>),
      (14, \<lparr>kind = Feed, m_parentItem = Some 12, m_childItems = [], m_unreadCount = 3, m_status = NewMessages\<rparr>),
      (15, \<lparr>kind = Feed, m_parentItem = Some 13, m_childItems = [], m_unreadCount = 2, m_status = Normal\<rparr>)]"

definition example_model :: FeedsModel where
  "example_model = \<lparr>model_id = 7, m_rootItem = 10, items = example_items, emitted = []\<rparr>"

text \<open>
  The heap of the example after feed 14 has been moved from category 12 to the end
  of category 13.
\<close>

definition example_items_after_move :: "nat \<Rightarrow> RootItem option" where
  "example_items_after_move = example_items
     (12 \<mapsto> \<lparr>kind = Category, m_parentItem = Some 11, m_childItems = [], m_unreadCount = 0, m_status = Normal\<rparr>,
      13 \<mapsto> \<lparr>kind = Category, m_parentItem = Some 11, m_childItems = [15, 14], m_unreadCount = 0, m_status = Normal\<rparr>,
      14 \<mapsto> \<lparr>kind = Feed, m_parentItem = Some 13, m_childItems = [], m_unreadCount = 3, m_status = NewMessages\<rparr>)"

definition example_tree :: itree where
  "example_tree = Node 10 [Node 11 [Node 12 [Node 14 []], Node 13 [Node 15 []]]]"

section \<open>Properties\<close>

subsection \<open>The example tree is well formed\<close>

lemma example_well_formed: "well_formed example_model example_tree"
  by (simp add: well_formed_def example_model_def example_tree_def example_items_def)

lemma example_model_fields [simp]:
  "model_id example_model = 7" "m_rootItem example_model = 10"
  "items example_model = example_items" "emitted example_model = []"
  by (simp_all add: example_model_def)

lemma example_items_simps [simp]:
  "example_items 10 = Some \<lparr>kind = Root, m_parentItem = None, m_childItems = [11], m_unreadCount = 0, m_status = Normal\<rparr>"
  "example_items 11 = Some \<lparr>kind = ServiceRoot, m_parentItem = Some 10, m_childItems = [12, 13], m_unreadCount = 0, m_status = Normal\<rparr>"
  "example_items 12 = Some \<lparr>kind = Category, m_parentItem = Some 11, m_childItems = [14], m_unreadCount = 0, m_status = Normal\<rparr>"
  "example_items 13 = Some \<lparr>kind = Category, m_parentItem = Some 11, m_childItems = [15], m_unreadCount = 0, m_status = Normal\<rparr>"
  "example_items 14 = Some \<lparr>kind = Feed, m_parentItem = Some 12, m_childItems = [], m_unreadCount = 3, m_status = NewMessages\<rparr>"
  "example_items 15 = Some \<lparr>kind = Feed, m_parentItem = Some 13, m_childItems = [], m_unreadCount = 2, m_status = Normal\<rparr>"
  by (simp_all add: example_items_def)

lemmas coordinate_defs =
  index_def hasIndex_def rowCount_def columnCount_def FEEDS_VIEW_COLUMN_COUNT_def
  FDS_MODEL_COUNTS_INDEX_def itemForIndex_def isValid_def deref_def child_def childCount_def
  createIndex_def QModelIndex_null_def parent_def row_of_def

subsection \<open>The debug handler\<close>

text \<open>
  Claim C9, as amended. When debug output is compiled in (\<^verbatim>\<open>QT_NO_DEBUG_OUTPUT\<close> is
  not defined), the handler asks the application to exit exactly for the fatal
  severity, and then with \<^verbatim>\<open>EXIT_FAILURE\<close> after writing its line, labelled FATAL.
  For the debug severity it writes one line labelled INFO, for the warning severity
  one line labelled WARNING, for the critical severity one line labelled CRITICAL,
  and it does nothing else. Each line carries the line number and the message; the
  file text of the line is read through a dangling pointer and is undefined. When
  \<^verbatim>\<open>QT_NO_DEBUG_OUTPUT\<close> is defined the handler does nothing for any severity.
\<close>

theorem debugHandler_exit_iff_fatal:
  "((\<exists>code. qApp_exit code \<in> set (debugHandler no_output sep t file line msg))
      \<longleftrightarrow> \<not> no_output \<and> t = QtFatalMsg)
   \<and> (\<not> no_output \<and> t = QtDebugMsg \<longrightarrow>
        debugHandler no_output sep t file line msg = [fprintf_stderr ''INFO'' None line msg])
   \<and> (\<not> no_output \<and> t = QtWarningMsg \<longrightarrow>
        debugHandler no_output sep t file line msg = [fprintf_stderr ''WARNING'' None line msg])
   \<and> (\<not> no_output \<and> t = QtCriticalMsg \<longrightarrow>
        debugHandler no_output sep t file line msg = [fprintf_stderr ''CRITICAL'' None line msg])
   \<and> (\<not> no_output \<and> t = QtFatalMsg \<longrightarrow>
        debugHandler no_output sep t file line msg =
          [fprintf_stderr ''FATAL'' None line msg, qApp_exit EXIT_FAILURE])
   \<and> (no_output \<longrightarrow> debugHandler no_output sep t file line msg = [])"
  by (cases t) (auto simp: debugHandler_def DEBUG_OUTPUT_WORKER_def qPrintable_kept_def)

theorem debugHandler_exit_iff_fatal_witness:
  "debugHandler False CHR ''/'' QtFatalMsg ''core/main.cpp'' 7 ''boom'' =
     [fprintf_stderr ''FATAL'' None 7 ''boom'', qApp_exit EXIT_FAILURE]
   \<and> debugHandler False CHR ''/'' QtDebugMsg ''core/main.cpp'' 7 ''boom'' =
     [fprintf_stderr ''INFO'' None 7 ''boom'']
   \<and> debugHandler False CHR ''/'' QtWarningMsg ''core/main.cpp'' 7 ''boom'' =
     [fprintf_stderr ''WARNING'' None 7 ''boom'']
   \<and> debugHandler False CHR ''/'' QtCriticalMsg ''core/main.cpp'' 7 ''boom'' =
     [fprintf_stderr ''CRITICAL'' None 7 ''boom'']
   \<and> debugHandler True CHR ''/'' QtCriticalMsg ''core/main.cpp'' 7 ''boom'' = []"
  using debugHandler_exit_iff_fatal [of False "CHR ''/''" QtFatalMsg "''core/main.cpp''" 7 "''boom''"]
    debugHandler_exit_iff_fatal [of False "CHR ''/''" QtDebugMsg "''core/main.cpp''" 7 "''boom''"]
    debugHandler_exit_iff_fatal [of False "CHR ''/''" QtWarningMsg "''core/main.cpp''" 7 "''boom''"]
    debugHandler_exit_iff_fatal [of False "CHR ''/''" QtCriticalMsg "''core/main.cpp''" 7 "''boom''"]
    debugHandler_exit_iff_fatal [of True "CHR ''/''" QtCriticalMsg "''core/main.cpp''" 7 "''boom''"]
  by simp

text \<open>
  With \<^verbatim>\<open>QT_NO_DEBUG_OUTPUT\<close> defined, a fatal message neither writes a line nor
  asks the application to exit.
\<close>

theorem debugHandler_fatal_silent_counterexample:
  "debugHandler True CHR ''/'' QtFatalMsg ''core/main.cpp'' 7 ''boom'' = []
   \<and> qApp_exit EXIT_FAILURE \<notin> set (debugHandler True CHR ''/'' QtFatalMsg ''core/main.cpp'' 7 ''boom'')"
  by (simp add: debugHandler_def)

subsection \<open>Coordinates resolve to items\<close>

lemma index_internalPointer:
  "index m r c par = Some j \<Longrightarrow> isValid j \<Longrightarrow> internalPointer j \<noteq> None"
  by (auto simp: index_def createIndex_def QModelIndex_null_def isValid_def
      split: bind_splits if_splits option.splits)

lemma parent_internalPointer:
  "parent m ch = Some k \<Longrightarrow> isValid k \<Longrightarrow> internalPointer k \<noteq> None"
  by (auto simp: parent_def createIndex_def QModelIndex_null_def isValid_def
      split: bind_splits if_splits option.splits)

text \<open>
  Claim C4, as amended. An index that is not valid, or that belongs to another model,
  resolves to the root item. A valid index of this model resolves to its internal
  pointer, whatever it is: the result is the null pointer exactly for a valid index
  of this model whose internal pointer is null. No index that the model returns from
  \<^verbatim>\<open>index\<close> or from \<^verbatim>\<open>parent\<close> is of that sort, so none of them resolves to the
  null pointer.
\<close>

theorem itemForIndex_root_or_pointer:
  "((\<not> isValid i \<or> model i \<noteq> Some (model_id m)) \<longrightarrow> itemForIndex m i = Some (m_rootItem m))
   \<and> (isValid i \<and> model i = Some (model_id m) \<longrightarrow> itemForIndex m i = internalPointer i)
   \<and> (itemForIndex m i = None \<longleftrightarrow>
        isValid i \<and> model i = Some (model_id m) \<and> internalPointer i = None)
   \<and> (index m r c par = Some j \<longrightarrow> itemForIndex m j \<noteq> None)
   \<and> (parent m ch = Some k \<longrightarrow> itemForIndex m k \<noteq> None)"
  using index_internalPointer [of m r c par j] parent_internalPointer [of m ch k]
  by (auto simp: itemForIndex_def)

theorem itemForIndex_root_or_pointer_witness:
  "itemForIndex example_model QModelIndex_null = Some 10
   \<and> itemForIndex example_model \<lparr>row = 0, column = 0, internalPointer = Some 14, model = Some 8\<rparr> = Some 10
   \<and> itemForIndex example_model (createIndex example_model 0 1 (Some 14)) = Some 14
   \<and> index example_model 1 0 (createIndex example_model 0 0 (Some 11)) = Some (createIndex example_model 1 0 (Some 13))
   \<and> itemForIndex example_model (createIndex example_model 1 0 (Some 13)) \<noteq> None
   \<and> parent example_model (createIndex example_model 0 0 (Some 15)) = Some (createIndex example_model 1 0 (Some 13))"
proof -
  have a: "index example_model 1 0 (createIndex example_model 0 0 (Some 11))
             = Some (createIndex example_model 1 0 (Some 13))"
    by (simp add: coordinate_defs)
  have b: "parent example_model (createIndex example_model 0 0 (Some 15))
             = Some (createIndex example_model 1 0 (Some 13))"
    by (simp add: coordinate_defs)
  show ?thesis
    using a b
      itemForIndex_root_or_pointer [of QModelIndex_null example_model 1 0
        "createIndex example_model 0 0 (Some 11)" "createIndex example_model 1 0 (Some 13)"
        "createIndex example_model 0 0 (Some 15)" "createIndex example_model 1 0 (Some 13)"]
      itemForIndex_root_or_pointer [of "\<lparr>row = 0, column = 0, internalPointer = Some 14, model = Some 8\<rparr>"
        example_model 1 0
        "createIndex example_model 0 0 (Some 11)" "createIndex example_model 1 0 (Some 13)"
        "createIndex example_model 0 0 (Some 15)" "createIndex example_model 1 0 (Some 13)"]
      itemForIndex_root_or_pointer [of "createIndex example_model 0 1 (Some 14)"
        example_model 1 0
        "createIndex example_model 0 0 (Some 11)" "createIndex example_model 1 0 (Some 13)"
        "createIndex example_model 0 0 (Some 15)" "createIndex example_model 1 0 (Some 13)"]
    by (simp add: isValid_def QModelIndex_null_def createIndex_def)
qed

text \<open>
  A valid index of the model with a null internal pointer resolves to the null
  pointer, not to the root item.
\<close>

theorem itemForIndex_null_pointer_counterexample:
  "isValid (createIndex example_model 0 0 None)
   \<and> model (createIndex example_model 0 0 None) = Some (model_id example_model)
   \<and> itemForIndex example_model (createIndex example_model 0 0 None) = None"
  by (simp add: itemForIndex_def isValid_def createIndex_def)

subsection \<open>Drag and drop\<close>

text \<open>
  Claim C6. Under any action other than the move action the drop handler leaves the
  model as it is (no item is reparented, no signal is emitted), whatever the payload
  holds; it answers true for the ignore action and false for every other one. The
  move action is the only supported drop action.
\<close>

theorem dropMimeData_only_move:
  "action \<noteq> MoveAction \<Longrightarrow>
     dropMimeData m payload action r c parent_index = Some (action = IgnoreAction, m)
     \<and> supportedDropActions m = MoveAction"
  by (simp add: dropMimeData_def supportedDropActions_def)

theorem dropMimeData_only_move_witness:
  "dropMimeData example_model [Some 14] CopyAction 0 0 (createIndex example_model 1 0 (Some 13))
     = Some (False, example_model)
   \<and> dropMimeData example_model [Some 14] IgnoreAction 0 0 (createIndex example_model 1 0 (Some 13))
     = Some (True, example_model)"
  using dropMimeData_only_move [of CopyAction example_model "[Some 14]" 0 0
      "createIndex example_model 1 0 (Some 13)"]
    dropMimeData_only_move [of IgnoreAction example_model "[Some 14]" 0 0
      "createIndex example_model 1 0 (Some 13)"]
  by simp

lemma drop_loop_first_rejected:
  assumes "getParentServiceRoot m token = Some dragged_root"
    and "getParentServiceRoot m (itemForIndex m parent_index) = Some target_root"
    and "deref m token = Some dragged"
    and "token = itemForIndex m parent_index \<or> m_parentItem dragged = itemForIndex m parent_index
         \<or> dragged_root \<noteq> target_root"
  shows "\<exists>m'. dropMimeData m (token # rest) MoveAction r c parent_index = Some (False, m')
              \<and> items m' = items m"
  using assms by (auto simp: dropMimeData_def Let_def emit_def)

text \<open>
  Claim C1, at a payload of two tokens. In the example tree, feed 14 (in category 12)
  and feed 15 (in category 13) are dropped on category 13 with the move action. Feed
  15 already has the target as its parent, so the claim asks for failure and an
  unchanged tree. The handler returns false, but only after it has moved feed 14,
  the first token, under category 13 and emitted the signal for its new coordinate.
\<close>

theorem dropMimeData_partial_move:
  "map_option m_parentItem (example_items 15)
     = Some (itemForIndex example_model (createIndex example_model 1 0 (Some 13)))
   \<and> dropMimeData example_model [Some 14, Some 15] MoveAction 0 0 (createIndex example_model 1 0 (Some 13))
     = Some (False, example_model\<lparr>items := example_items_after_move,
          emitted := [requireItemValidationAfterDragDrop (createIndex example_model 1 0 (Some 14))]\<rparr>)
   \<and> map_option m_parentItem (example_items 14) = Some (Some 12)
   \<and> map_option m_parentItem (example_items_after_move 14) = Some (Some 13)"
  by (simp add: dropMimeData_def getParentServiceRoot.simps performDragDropChange_def has_ancestor.simps
      legal_container_def removeChild_def appendChild_def example_items_after_move_def Let_def emit_def
      indexForItem.simps walk_chain.simps coordinate_defs)

lemma mimeData_payload:
  "mimeData m indexes = Some payload \<Longrightarrow>
   payload = map (itemForIndex m)
      (filter (\<lambda>i. column i = 0 \<and> (\<exists>it. deref m (itemForIndex m i) = Some it \<and> kind it \<noteq> Root)) indexes)"
  by (induction indexes arbitrary: payload) (auto simp: Let_def split: if_splits bind_splits)

lemma mimeData_returns:
  "\<forall>i\<in>set indexes. column i = 0 \<longrightarrow> deref m (itemForIndex m i) \<noteq> None \<Longrightarrow>
   \<exists>payload. mimeData m indexes = Some payload"
  by (induction indexes) (auto simp: Let_def split: if_splits bind_splits)

text \<open>
  Claim C7. When every selected column-0 coordinate resolves to a live item and the
  root item is of the root kind, \<^verbatim>\<open>mimeData\<close> returns a payload that holds, in the
  order of the selection, the address of the resolved item of each coordinate of
  column 0 whose item is not of the root kind, and nothing else: a coordinate of
  another column contributes nothing, and neither the root item nor the null pointer
  is ever written.
\<close>

theorem mimeData_tokens:
  assumes live: "\<forall>i\<in>set indexes. column i = 0 \<longrightarrow> deref m (itemForIndex m i) \<noteq> None"
    and root: "\<exists>r. items m (m_rootItem m) = Some r \<and> kind r = Root"
  shows "\<exists>payload. mimeData m indexes = Some payload
           \<and> payload = map (itemForIndex m)
                 (filter (\<lambda>i. column i = 0 \<and>
                    (\<exists>it. deref m (itemForIndex m i) = Some it \<and> kind it \<noteq> Root)) indexes)
           \<and> Some (m_rootItem m) \<notin> set payload \<and> None \<notin> set payload"
proof -
  from mimeData_returns [OF live] obtain payload where p: "mimeData m indexes = Some payload" ..
  note eq = mimeData_payload [OF p]
  have "Some (m_rootItem m) \<notin> set payload"
    using root unfolding eq by (auto simp: deref_def split: option.splits dest: sym)
  moreover have "None \<notin> set payload"
    unfolding eq by (auto simp: deref_def split: option.splits dest: sym)
  ultimately show ?thesis using p eq by blast
qed

theorem mimeData_tokens_witness:
  "mimeData example_model
     [createIndex example_model 0 0 (Some 14), createIndex example_model 0 1 (Some 14),
      QModelIndex_null, createIndex example_model 0 0 (Some 10), createIndex example_model 1 0 (Some 13)]
   = Some [Some 14, Some 13]"
proof -
  let ?sel = "[createIndex example_model 0 0 (Some 14), createIndex example_model 0 1 (Some 14),
      QModelIndex_null, createIndex example_model 0 0 (Some 10), createIndex example_model 1 0 (Some 13)]"
  have live: "\<forall>i\<in>set ?sel. column i = 0 \<longrightarrow> deref example_model (itemForIndex example_model i) \<noteq> None"
    by (simp add: coordinate_defs)
  have root: "\<exists>r. items example_model (m_rootItem example_model) = Some r \<and> kind r = Root"
    by simp
  from mimeData_tokens [OF live root] show ?thesis
    by (simp add: coordinate_defs)
qed

subsection \<open>Attached items and their chains\<close>

lemma label_in_nodes: "label t \<in> set (nodes t)"
  by (cases t) simp

lemma distinct_labels:
  "distinct (concat (map nodes ts)) \<Longrightarrow> distinct (map label ts)"
proof (induction ts)
  case Nil
  then show ?case by simp
next
  case (Cons t ts)
  have "label t \<notin> label ` set ts"
  proof
    assume "label t \<in> label ` set ts"
    then obtain u where u: "u \<in> set ts" "label u = label t" by auto
    have "label t \<in> set (nodes t)" by (rule label_in_nodes)
    moreover have "label t \<in> set (nodes u)" using label_in_nodes[of u] u by simp
    ultimately show False using Cons.prems u(1) by auto
  qed
  with Cons show ?case by simp
qed

lemma shape_local:
  "shape h t \<Longrightarrow> distinct (nodes t) \<Longrightarrow> q \<in> set (nodes t) \<Longrightarrow>
   \<exists>qt. h q = Some qt \<and> distinct (m_childItems qt) \<and> (kind qt = Feed \<longrightarrow> m_childItems qt = []) \<and>
     (\<forall>c\<in>set (m_childItems qt). c \<in> set (nodes t) \<and>
        (\<exists>ct. h c = Some ct \<and> m_parentItem ct = Some q \<and> kind ct \<noteq> Root))"
proof (induction t)
  case (Node p ts)
  from Node.prems(1) obtain it where it: "h p = Some it" "m_childItems it = map label ts"
    "kind it = Feed \<longrightarrow> ts = []"
    and sub: "\<And>t. t \<in> set ts \<Longrightarrow> shape h t \<and> (\<exists>ct. h (label t) = Some ct \<and> m_parentItem ct = Some p \<and> kind ct \<noteq> Root)"
    by (auto split: option.splits)
  from Node.prems(2) have d: "distinct (concat (map nodes ts))" by simp
  show ?case
  proof (cases "q = p")
    case True
    have "distinct (m_childItems it)" using distinct_labels[OF d] it by simp
    moreover have "\<forall>c\<in>set (m_childItems it). c \<in> set (nodes (Node p ts)) \<and>
        (\<exists>ct. h c = Some ct \<and> m_parentItem ct = Some q \<and> kind ct \<noteq> Root)"
      using it(2) sub True label_in_nodes by auto
    ultimately show ?thesis using it True by auto
  next
    case False
    with Node.prems(3) obtain u where u: "u \<in> set ts" "q \<in> set (nodes u)" by auto
    have du: "distinct (nodes u)" using d u(1) by (auto simp: distinct_concat_iff)
    from Node.IH[OF u(1) _ du u(2)] sub[OF u(1)]
    obtain qt where "h q = Some qt \<and> distinct (m_childItems qt) \<and> (kind qt = Feed \<longrightarrow> m_childItems qt = []) \<and>
     (\<forall>c\<in>set (m_childItems qt). c \<in> set (nodes u) \<and>
        (\<exists>ct. h c = Some ct \<and> m_parentItem ct = Some q \<and> kind ct \<noteq> Root))" by blast
    then show ?thesis using u(1) by auto
  qed
qed

lemma well_formed_local:
  assumes "well_formed m t" "q \<in> set (nodes t)"
  shows "\<exists>qt. items m q = Some qt \<and> distinct (m_childItems qt) \<and> (kind qt = Feed \<longrightarrow> m_childItems qt = []) \<and>
     (\<forall>c\<in>set (m_childItems qt). c \<in> set (nodes t) \<and> c \<noteq> m_rootItem m \<and>
        (\<exists>ct. items m c = Some ct \<and> m_parentItem ct = Some q \<and> kind ct \<noteq> Root))"
proof -
  from assms have s: "shape (items m) t" "distinct (nodes t)"
    and r: "\<exists>r. items m (m_rootItem m) = Some r \<and> kind r = Root"
    by (auto simp: well_formed_def split: option.splits)
  from shape_local[OF s assms(2)] r show ?thesis by fastforce
qed

lemma chain_in_nodes:
  assumes wf: "well_formed m t"
  shows "chain m xs q \<Longrightarrow> q \<in> set (nodes t)"
proof (induction rule: chain.induct)
  case chain_root
  from wf have "label t = m_rootItem m" by (simp add: well_formed_def)
  then show ?case using label_in_nodes[of t] by simp
next
  case (chain_child xs q qt c)
  from well_formed_local[OF wf chain_child.IH] chain_child.hyps show ?case by auto
qed

lemma shape_chain:
  "shape (items m) t \<Longrightarrow> chain m xs (label t) \<Longrightarrow> c \<in> set (nodes t) \<Longrightarrow> \<exists>ys. chain m ys c"
proof (induction t arbitrary: xs)
  case (Node p ts)
  show ?case
  proof (cases "c = p")
    case True
    then show ?thesis using Node.prems(2) by auto
  next
    case False
    with Node.prems(3) obtain u where u: "u \<in> set ts" "c \<in> set (nodes u)" by auto
    from Node.prems(1) u(1) obtain it where it: "items m p = Some it" "m_childItems it = map label ts" "shape (items m) u"
      by (auto split: option.splits)
    have "chain m (xs @ [label u]) (label u)"
      using Node.prems(2) it u(1) by (auto intro!: chain.chain_child)
    from Node.IH[OF u(1) it(3) this u(2)] show ?thesis .
  qed
qed

lemma nodes_chain:
  assumes "well_formed m t" "c \<in> set (nodes t)"
  shows "\<exists>xs. chain m xs c"
proof -
  from assms(1) have "shape (items m) t" "label t = m_rootItem m" by (auto simp: well_formed_def)
  moreover have "chain m [] (label t)" using calculation(2) chain.chain_root[of m] by simp
  ultimately show ?thesis using shape_chain assms(2) by blast
qed

subsection \<open>The coordinate of an attached item\<close>

lemma indexOf_member:
  "x \<in> set xs \<Longrightarrow> 0 \<le> indexOf xs x \<and> nat (indexOf xs x) < length xs \<and> xs ! nat (indexOf xs x) = x"
  by (induction xs) (auto simp: Let_def nat_add_distrib)

lemma indexOf_nth:
  "distinct xs \<Longrightarrow> i < length xs \<Longrightarrow> indexOf xs (xs ! i) = int i"
proof (induction xs arbitrary: i)
  case Nil
  then show ?case by simp
next
  case (Cons y ys)
  show ?case
  proof (cases i)
    case 0
    then show ?thesis by simp
  next
    case (Suc j)
    with Cons.prems have j: "j < length ys" "distinct ys" "ys ! j \<noteq> y"
      by auto
    from Cons.IH[OF j(2) j(1)] j(3) Suc show ?thesis by (simp add: Let_def)
  qed
qed

lemma chain_child_facts:
  assumes wf: "well_formed m t" and q: "chain m xs q" and qt: "items m q = Some qt"
    and c: "c \<in> set (m_childItems qt)"
  shows "\<exists>ct. items m c = Some ct \<and> m_parentItem ct = Some q \<and> kind ct \<noteq> Root \<and> c \<noteq> m_rootItem m
           \<and> row_of m c = Some (indexOf (m_childItems qt) c)
           \<and> 0 \<le> indexOf (m_childItems qt) c
           \<and> indexOf (m_childItems qt) c < int (length (m_childItems qt))
           \<and> m_childItems qt ! nat (indexOf (m_childItems qt) c) = c"
proof -
  from well_formed_local[OF wf chain_in_nodes[OF wf q]] qt c
  obtain ct where ct: "items m c = Some ct" "m_parentItem ct = Some q" "kind ct \<noteq> Root" "c \<noteq> m_rootItem m"
    by auto
  have "row_of m c = Some (indexOf (m_childItems qt) c)"
    using ct qt by (simp add: row_of_def)
  with ct indexOf_member[OF c] show ?thesis by auto
qed

lemma chain_cases_nonroot:
  assumes "chain m xs c" "c \<noteq> m_rootItem m"
  obtains ys q qt where "xs = ys @ [c]" "chain m ys q" "items m q = Some qt" "c \<in> set (m_childItems qt)"
  using assms by (cases rule: chain.cases) auto

lemma walk_chain_step:
  "items m c = Some ct \<Longrightarrow> kind ct \<noteq> Root \<Longrightarrow> m_parentItem ct = Some q \<Longrightarrow>
   walk_chain m (Some c) acc = walk_chain m (Some q) (c # acc)"
  by (subst walk_chain.simps) simp

lemma walk_chain_chain:
  assumes wf: "well_formed m t"
  shows "chain m xs c \<Longrightarrow> walk_chain m (Some c) acc = Some (xs @ acc)"
proof (induction arbitrary: acc rule: chain.induct)
  case chain_root
  from wf obtain r where "items m (m_rootItem m) = Some r" "kind r = Root"
    by (auto simp: well_formed_def split: option.splits)
  then show ?case by (subst walk_chain.simps) simp
next
  case (chain_child xs q qt c)
  from chain_child_facts[OF wf chain_child.hyps(1,2,3)]
  obtain ct where ct: "items m c = Some ct" "m_parentItem ct = Some q" "kind ct \<noteq> Root" by auto
  show ?case
    using walk_chain_step[OF ct(1) ct(3) ct(2)] chain_child.IH by simp
qed

lemma coordinate_of_resolves:
  assumes wf: "well_formed m t" and q: "chain m xs q"
  shows "itemForIndex m (coordinate_of m q) = Some q \<and> column (coordinate_of m q) \<le> 0"
proof (cases "q = m_rootItem m")
  case True
  then show ?thesis
    by (simp add: coordinate_of_def itemForIndex_def isValid_def QModelIndex_null_def)
next
  case False
  from chain_cases_nonroot[OF q False] obtain ys p pt where
    p: "chain m ys p" "items m p = Some pt" "q \<in> set (m_childItems pt)" by metis
  from chain_child_facts[OF wf p] have "row_of m q = Some (indexOf (m_childItems pt) q)"
    "0 \<le> indexOf (m_childItems pt) q" by auto
  with False show ?thesis
    by (simp add: coordinate_of_def anchored_def itemForIndex_def isValid_def createIndex_def)
qed

lemma index_child:
  assumes wf: "well_formed m t" and q: "chain m xs q" and qt: "items m q = Some qt"
    and c: "c \<in> set (m_childItems qt)" and col: "col = 0 \<or> col = 1"
  shows "index m (indexOf (m_childItems qt) c) col (coordinate_of m q) = Some (anchored m c col)"
proof -
  from chain_child_facts[OF wf q qt c] have f: "row_of m c = Some (indexOf (m_childItems qt) c)"
    "0 \<le> indexOf (m_childItems qt) c" "indexOf (m_childItems qt) c < int (length (m_childItems qt))"
    "m_childItems qt ! nat (indexOf (m_childItems qt) c) = c" by auto
  from coordinate_of_resolves[OF wf q] have r: "itemForIndex m (coordinate_of m q) = Some q"
    "column (coordinate_of m q) \<le> 0" by auto
  show ?thesis
    using f r qt col
    by (auto simp: index_def hasIndex_def rowCount_def columnCount_def FEEDS_VIEW_COLUMN_COUNT_def
        deref_def childCount_def child_def anchored_def)
qed

lemma descend_append:
  "descend m (xs @ ys) target = descend m xs target \<bind> descend m ys"
  by (induction xs arbitrary: target) (auto split: bind_splits)

lemma descend_chain:
  assumes wf: "well_formed m t"
  shows "chain m xs c \<Longrightarrow> descend m xs QModelIndex_null = Some (coordinate_of m c)"
proof (induction rule: chain.induct)
  case chain_root
  then show ?case by (simp add: coordinate_of_def)
next
  case (chain_child xs q qt c)
  from chain_child_facts[OF wf chain_child.hyps(1,2,3)]
  obtain ct where ct: "items m c = Some ct" "m_parentItem ct = Some q" "c \<noteq> m_rootItem m" by auto
  have "descend m [c] (coordinate_of m q) = Some (anchored m c 0)"
    using ct chain_child.hyps(2) index_child[OF wf chain_child.hyps(1,2,3), of 0]
    by (simp add: deref_def)
  then show ?case
    using chain_child.IH ct(3) by (simp add: descend_append coordinate_of_def)
qed

lemma indexForItem_root:
  assumes wf: "well_formed m t"
  shows "indexForItem m (Some (m_rootItem m)) = Some QModelIndex_null"
proof -
  from wf obtain r where "items m (m_rootItem m) = Some r" "kind r = Root"
    by (auto simp: well_formed_def split: option.splits)
  then show ?thesis by (subst indexForItem.simps) simp
qed

lemma indexForItem_chain:
  assumes wf: "well_formed m t" and c: "chain m xs c"
  shows "indexForItem m (Some c) = Some (coordinate_of m c)"
proof (cases "c = m_rootItem m")
  case True
  then show ?thesis using indexForItem_root[OF wf] by (simp add: coordinate_of_def)
next
  case False
  from chain_cases_nonroot[OF c False] obtain ys p pt where
    p: "chain m ys p" "items m p = Some pt" "c \<in> set (m_childItems pt)" by metis
  from chain_child_facts[OF wf p]
  obtain ct where ct: "items m c = Some ct" "kind ct \<noteq> Root" by auto
  show ?thesis
    using ct walk_chain_chain[OF wf c, of "[]"] indexForItem_root[OF wf] descend_chain[OF wf c]
    by (subst indexForItem.simps) simp
qed

lemma index_column:
  "index m r 0 tgt = Some i \<Longrightarrow> column i \<le> 0"
  by (auto simp: index_def createIndex_def QModelIndex_null_def split: bind_splits if_splits option.splits)

lemma descend_column:
  "descend m xs tgt = Some i \<Longrightarrow> column tgt \<le> 0 \<Longrightarrow> column i \<le> 0"
proof (induction xs arbitrary: tgt)
  case Nil
  then show ?case by simp
next
  case (Cons p xs)
  then show ?case by (auto split: bind_splits dest: index_column)
qed

lemma indexForItem_column:
  "indexForItem m item = Some i \<Longrightarrow> column i \<le> 0"
proof (erule indexForItem.raw_induct [where P = "\<lambda>m item i. column i \<le> 0", rotated])
  fix f m item y
  assume IH: "\<And>m item y. f m item = Some (y :: QModelIndex) \<Longrightarrow> column y \<le> 0"
    and eq: "(case item of None \<Rightarrow> Some QModelIndex_null
      | Some p \<Rightarrow>
          case items m p of None \<Rightarrow> None
          | Some it \<Rightarrow>
              if kind it = Root then Some QModelIndex_null
              else walk_chain m item [] \<bind>
                   (\<lambda>chain. f m (Some (m_rootItem m)) \<bind> descend m chain)) = Some y"
  from eq show "column y \<le> 0"
    by (auto simp: QModelIndex_null_def split: option.splits if_splits bind_splits
        dest: descend_column IH)
qed


text \<open>
  Claim C5. The null pointer and every item of the root kind map to the invalid
  index. For any other item attached to a well-formed tree, the first loop collects
  the chain of the item (the items from below the root item down to the item), the
  second loop descends along it from the invalid index of the root item, and the
  result is the coordinate anchored at the item: its row among the children of its
  parent, column 0, and the item as internal pointer.
\<close>

theorem indexForItem_anchored:
  "indexForItem m None = Some QModelIndex_null \<and> \<not> isValid QModelIndex_null
   \<and> (items m p = Some it \<and> kind it = Root \<longrightarrow> indexForItem m (Some p) = Some QModelIndex_null)
   \<and> (well_formed m t \<and> c \<in> set (nodes t) \<and> c \<noteq> m_rootItem m \<longrightarrow>
        (\<exists>xs r. chain m xs c \<and> walk_chain m (Some c) [] = Some xs
           \<and> descend m xs QModelIndex_null = Some (createIndex m r 0 (Some c))
           \<and> indexForItem m (Some c) = Some (createIndex m r 0 (Some c))
           \<and> row_of m c = Some r \<and> 0 \<le> r))"
proof -
  have a: "indexForItem m None = Some QModelIndex_null"
    by (subst indexForItem.simps) simp
  have b: "\<not> isValid QModelIndex_null"
    by (simp add: isValid_def QModelIndex_null_def)
  have c: "items m p = Some it \<and> kind it = Root \<longrightarrow> indexForItem m (Some p) = Some QModelIndex_null"
    by (subst indexForItem.simps) simp
  have d: "\<exists>xs r. chain m xs c \<and> walk_chain m (Some c) [] = Some xs
           \<and> descend m xs QModelIndex_null = Some (createIndex m r 0 (Some c))
           \<and> indexForItem m (Some c) = Some (createIndex m r 0 (Some c))
           \<and> row_of m c = Some r \<and> 0 \<le> r"
    if wf: "well_formed m t" and n: "c \<in> set (nodes t)" and nr: "c \<noteq> m_rootItem m"
  proof -
    from nodes_chain[OF wf n] obtain xs where xs: "chain m xs c" ..
    from chain_cases_nonroot[OF xs nr] obtain ys q qt where
      q: "chain m ys q" "items m q = Some qt" "c \<in> set (m_childItems qt)" by metis
    from chain_child_facts[OF wf q] have r: "row_of m c = Some (indexOf (m_childItems qt) c)"
      "0 \<le> indexOf (m_childItems qt) c" by auto
    have co: "coordinate_of m c = createIndex m (indexOf (m_childItems qt) c) 0 (Some c)"
      using nr r by (simp add: coordinate_of_def anchored_def)
    show ?thesis
      using xs walk_chain_chain[OF wf xs, of "[]"] descend_chain[OF wf xs] indexForItem_chain[OF wf xs] r co
      by auto
  qed
  from a b c d show ?thesis by blast
qed


theorem indexForItem_anchored_witness:
  "indexForItem example_model (Some 15) = Some (createIndex example_model 0 0 (Some 15))
   \<and> walk_chain example_model (Some 15) [] = Some [11, 13, 15]
   \<and> indexForItem example_model (Some 10) = Some QModelIndex_null"
proof -
  have n: "15 \<in> set (nodes example_tree) \<and> (15::nat) \<noteq> m_rootItem example_model"
    by (simp add: example_tree_def)
  have r: "row_of example_model 15 = Some 0"
    by (simp add: row_of_def)
  have w: "walk_chain example_model (Some 15) [] = Some [11, 13, 15]"
    by (simp add: walk_chain.simps)
  from indexForItem_anchored [of example_model 10
      "\<lparr>kind = Root, m_parentItem = None, m_childItems = [11], m_unreadCount = 0, m_status = Normal\<rparr>"
      example_tree 15] example_well_formed n r w
  show ?thesis by auto
qed

text \<open>
  Claim C10. For every item attached to a well-formed tree other than the root item,
  \<^verbatim>\<open>indexForItem\<close> returns a valid index of column 0 that \<^verbatim>\<open>itemForIndex\<close> resolves
  back to the item. Whatever the item and the state of the heap, an index returned by
  \<^verbatim>\<open>indexForItem\<close> is never of column 1.
\<close>

theorem indexForItem_inverse:
  "(well_formed m t \<and> c \<in> set (nodes t) \<and> c \<noteq> m_rootItem m \<longrightarrow>
      (\<exists>i. indexForItem m (Some c) = Some i \<and> isValid i \<and> itemForIndex m i = Some c \<and> column i = 0))
   \<and> (indexForItem m item = Some j \<longrightarrow> column j \<noteq> 1)"
proof -
  have "\<exists>i. indexForItem m (Some c) = Some i \<and> isValid i \<and> itemForIndex m i = Some c \<and> column i = 0"
    if wf: "well_formed m t" and n: "c \<in> set (nodes t)" and nr: "c \<noteq> m_rootItem m"
  proof -
    from nodes_chain[OF wf n] obtain xs where xs: "chain m xs c" ..
    from coordinate_of_resolves[OF wf xs] have r: "itemForIndex m (coordinate_of m c) = Some c" by simp
    have col: "column (coordinate_of m c) = 0"
      using nr by (simp add: coordinate_of_def anchored_def createIndex_def)
    have "isValid (coordinate_of m c)"
      using r nr by (auto simp: itemForIndex_def split: if_splits)
    with indexForItem_chain[OF wf xs] r col show ?thesis by blast
  qed
  moreover have "indexForItem m item = Some j \<longrightarrow> column j \<noteq> 1"
    using indexForItem_column[of m item j] by auto
  ultimately show ?thesis by blast
qed


theorem indexForItem_inverse_witness:
  "(\<exists>i. indexForItem example_model (Some 14) = Some i \<and> isValid i
        \<and> itemForIndex example_model i = Some 14 \<and> column i = 0)
   \<and> indexForItem example_model (Some 14) = Some (createIndex example_model 0 0 (Some 14))
   \<and> column (createIndex example_model 0 0 (Some 14)) \<noteq> 1"
proof -
  have n: "14 \<in> set (nodes example_tree) \<and> (14::nat) \<noteq> m_rootItem example_model"
    by (simp add: example_tree_def)
  have e: "indexForItem example_model (Some 14) = Some (createIndex example_model 0 0 (Some 14))"
    by (simp add: indexForItem.simps walk_chain.simps coordinate_defs)
  from indexForItem_inverse [of example_model example_tree 14 "Some 14"
      "createIndex example_model 0 0 (Some 14)"] example_well_formed n e
  show ?thesis by simp
qed

text \<open>
  Claim C2, as amended. Let the parent index resolve to an item attached to a
  well-formed tree, and let \<^verbatim>\<open>index\<close> return a valid coordinate for a row and a
  column below it. Resolving the coordinate to its item and asking for the
  coordinate of that item gives the same row, internal pointer and model, and
  column 0: the round trip is the identity on the coordinates of column 0, and it
  sends a coordinate of column 1 to the coordinate of column 0 of the same row.
\<close>

theorem index_round_trip:
  assumes wf: "well_formed m t" and par: "itemForIndex m par = Some q" and q: "q \<in> set (nodes t)"
    and c: "index m r col par = Some c" and v: "isValid c"
  shows "indexForItem m (itemForIndex m c) = Some (c\<lparr>column := 0\<rparr>)
         \<and> (col = 0 \<longrightarrow> indexForItem m (itemForIndex m c) = Some c)"
proof -
  from well_formed_local[OF wf q] obtain qt where qt: "items m q = Some qt" "distinct (m_childItems qt)"
    by auto
  from c v par qt have cc: "c = createIndex m r col (Some (m_childItems qt ! nat r))"
    "0 \<le> r" "r < int (length (m_childItems qt))"
    by (auto simp: index_def hasIndex_def rowCount_def deref_def child_def childCount_def isValid_def
        QModelIndex_null_def split: bind_splits if_splits option.splits)
  let ?ch = "m_childItems qt ! nat r"
  have mem: "?ch \<in> set (m_childItems qt)" using cc by simp
  from nodes_chain[OF wf q] obtain xs where xs: "chain m xs q" ..
  have chn: "chain m (xs @ [?ch]) ?ch" using xs qt(1) mem by (rule chain.chain_child)
  from chain_child_facts[OF wf xs qt(1) mem] have f: "?ch \<noteq> m_rootItem m"
    "row_of m ?ch = Some (indexOf (m_childItems qt) ?ch)" by auto
  have "indexOf (m_childItems qt) ?ch = r"
    using indexOf_nth[OF qt(2), of "nat r"] cc by simp
  with f have co: "coordinate_of m ?ch = createIndex m r 0 (Some ?ch)"
    by (simp add: coordinate_of_def anchored_def)
  have "itemForIndex m c = Some ?ch"
    using v cc(1) by (simp add: itemForIndex_def createIndex_def)
  with indexForItem_chain[OF wf chn] co have "indexForItem m (itemForIndex m c) = Some (createIndex m r 0 (Some ?ch))"
    by simp
  then show ?thesis using cc(1) by (auto simp: createIndex_def)
qed


theorem index_round_trip_witness:
  "index example_model 1 0 (createIndex example_model 0 0 (Some 11))
     = Some (createIndex example_model 1 0 (Some 13))
   \<and> indexForItem example_model (itemForIndex example_model (createIndex example_model 1 0 (Some 13)))
     = Some (createIndex example_model 1 0 (Some 13))"
proof -
  have p: "itemForIndex example_model (createIndex example_model 0 0 (Some 11)) = Some 11"
    by (simp add: coordinate_defs)
  have q: "11 \<in> set (nodes example_tree)"
    by (simp add: example_tree_def)
  have c: "index example_model 1 0 (createIndex example_model 0 0 (Some 11))
             = Some (createIndex example_model 1 0 (Some 13))"
    by (simp add: coordinate_defs)
  have v: "isValid (createIndex example_model 1 0 (Some 13))"
    by (simp add: coordinate_defs)
  from index_round_trip [OF example_well_formed p q c v] c show ?thesis by blast
qed

text \<open>
  The coordinate of column 1 of the account of the example tree is valid, and the
  round trip gives the coordinate of column 0 instead.
\<close>

theorem index_round_trip_column_counterexample:
  "index example_model 0 1 QModelIndex_null = Some (createIndex example_model 0 1 (Some 11))
   \<and> isValid (createIndex example_model 0 1 (Some 11))
   \<and> indexForItem example_model (itemForIndex example_model (createIndex example_model 0 1 (Some 11)))
       = Some (createIndex example_model 0 0 (Some 11))
   \<and> createIndex example_model 0 0 (Some 11) \<noteq> createIndex example_model 0 1 (Some 11)"
  by (simp add: indexForItem.simps walk_chain.simps coordinate_defs)

subsection \<open>Counts\<close>

lemma getSubTreeFeeds_loop_forest:
  assumes "\<And>t rest acc. t \<in> set ts \<Longrightarrow>
     getSubTreeFeeds_loop m (label t # rest) acc = getSubTreeFeeds_loop m rest (acc @ tree_feeds m t)"
  shows "getSubTreeFeeds_loop m (map label ts @ rest) acc
         = getSubTreeFeeds_loop m rest (acc @ concat (map (tree_feeds m) ts))"
  using assms by (induction ts arbitrary: acc) simp_all

lemma tree_feeds_Node:
  "tree_feeds m (Node p ts) = (if is_feed m p then [p] else []) @ concat (map (tree_feeds m) ts)"
  by (simp add: tree_feeds_def [abs_def] filter_concat comp_def)

lemma getSubTreeFeeds_loop_tree:
  "shape (items m) t \<Longrightarrow>
   getSubTreeFeeds_loop m (label t # rest) acc = getSubTreeFeeds_loop m rest (acc @ tree_feeds m t)"
proof (induction t arbitrary: rest acc)
  case (Node p ts)
  from Node.prems obtain it where it: "items m p = Some it" "m_childItems it = map label ts"
    "kind it = Feed \<longrightarrow> ts = []" and sub: "\<And>t. t \<in> set ts \<Longrightarrow> shape (items m) t"
    by (auto split: option.splits)
  show ?case
  proof (cases "kind it = Feed")
    case True
    with it show ?thesis
      by (subst getSubTreeFeeds_loop.simps) (simp add: tree_feeds_Node is_feed_def)
  next
    case False
    have "getSubTreeFeeds_loop m (label (Node p ts) # rest) acc
          = getSubTreeFeeds_loop m (map label ts @ rest) acc"
      using it False by (subst getSubTreeFeeds_loop.simps) simp
    also have "\<dots> = getSubTreeFeeds_loop m rest (acc @ concat (map (tree_feeds m) ts))"
      by (rule getSubTreeFeeds_loop_forest) (simp add: Node.IH sub)
    finally show ?thesis using it False by (simp add: tree_feeds_Node is_feed_def)
  qed
qed

lemma countOfUnreadMessages_loop_forest:
  assumes "\<And>t rest acc. t \<in> set ts \<Longrightarrow>
     countOfUnreadMessages_loop m (label t # rest) acc = countOfUnreadMessages_loop m rest (acc + total_unread m t)"
  shows "countOfUnreadMessages_loop m (map label ts @ rest) acc
         = countOfUnreadMessages_loop m rest (acc + (\<Sum>t\<leftarrow>ts. total_unread m t))"
  using assms by (induction ts arbitrary: acc) (simp_all add: add.assoc)

lemma total_unread_Node:
  "total_unread m (Node p ts) = (if is_feed m p then unread_of m p else 0) + (\<Sum>t\<leftarrow>ts. total_unread m t)"
proof -
  have "sum_list (map (unread_of m) (concat (map (tree_feeds m) ts))) = (\<Sum>t\<leftarrow>ts. total_unread m t)"
    by (induction ts) (simp_all add: total_unread_def)
  then show ?thesis
    by (simp add: total_unread_def tree_feeds_Node)
qed

lemma countOfUnreadMessages_loop_tree:
  "shape (items m) t \<Longrightarrow>
   countOfUnreadMessages_loop m (label t # rest) acc = countOfUnreadMessages_loop m rest (acc + total_unread m t)"
proof (induction t arbitrary: rest acc)
  case (Node p ts)
  from Node.prems obtain it where it: "items m p = Some it" "m_childItems it = map label ts"
    "kind it = Feed \<longrightarrow> ts = []" and sub: "\<And>t. t \<in> set ts \<Longrightarrow> shape (items m) t"
    by (auto split: option.splits)
  show ?case
  proof (cases "kind it = Feed")
    case True
    with it show ?thesis
      by (subst countOfUnreadMessages_loop.simps) (simp add: total_unread_Node is_feed_def unread_of_def)
  next
    case False
    have "countOfUnreadMessages_loop m (label (Node p ts) # rest) acc
          = countOfUnreadMessages_loop m (map label ts @ rest) acc"
      using it False by (subst countOfUnreadMessages_loop.simps) simp
    also have "\<dots> = countOfUnreadMessages_loop m rest (acc + (\<Sum>t\<leftarrow>ts. total_unread m t))"
      by (rule countOfUnreadMessages_loop_forest) (simp add: Node.IH sub)
    finally show ?thesis using it False by (simp add: total_unread_Node is_feed_def)
  qed
qed

lemma any_new_messages_list:
  "\<forall>f\<in>set feeds. items m f \<noteq> None \<Longrightarrow>
   any_new_messages m feeds = Some (\<exists>f\<in>set feeds. has_new_messages m f)"
  by (induction feeds) (auto simp: has_new_messages_def split: bind_splits)

lemma countOfUnreadMessages_tree:
  assumes wf: "well_formed m t"
  shows "countOfUnreadMessages m = Some (total_unread m t)"
proof -
  from wf have s: "shape (items m) t" "label t = m_rootItem m" by (auto simp: well_formed_def)
  from countOfUnreadMessages_loop_tree[OF s(1), of "[]" 0] s(2)
  show ?thesis
    by (simp add: countOfUnreadMessages_def item_countOfUnreadMessages_def countOfUnreadMessages_loop.simps[of m "[]"])
qed

lemma hasAnyFeedNewMessages_tree:
  assumes wf: "well_formed m t"
  shows "hasAnyFeedNewMessages m = Some (\<exists>p\<in>set (nodes t). is_feed m p \<and> has_new_messages m p)"
proof -
  from wf have s: "shape (items m) t" "label t = m_rootItem m" by (auto simp: well_formed_def)
  from getSubTreeFeeds_loop_tree[OF s(1), of "[]" "[]"] s(2)
  have g: "getSubTreeFeeds m (m_rootItem m) = Some (tree_feeds m t)"
    by (simp add: getSubTreeFeeds_def getSubTreeFeeds_loop.simps[of m "[]"])
  have "\<forall>f\<in>set (tree_feeds m t). items m f \<noteq> None"
    by (auto simp: tree_feeds_def is_feed_def split: option.splits)
  from any_new_messages_list[OF this] g show ?thesis
    by (auto simp: hasAnyFeedNewMessages_def tree_feeds_def)
qed


text \<open>
  Claim C8. On a well-formed tree, \<^verbatim>\<open>notifyWithCounts\<close> returns, and what it does is
  emit one \<^verbatim>\<open>messageCountsChanged\<close> signal. Its first argument is the unread
  count of the root item, which is the sum of the unread counts of all feeds of the
  tree; its second argument is true exactly when some feed of the tree has the
  status \<^verbatim>\<open>NewMessages\<close>.
\<close>

theorem notifyWithCounts_pair:
  "well_formed m t \<Longrightarrow>
   notifyWithCounts m =
     Some (m\<lparr>emitted := emitted m @
        [messageCountsChanged (total_unread m t)
           (\<exists>p\<in>set (nodes t). is_feed m p \<and> has_new_messages m p)]\<rparr>)
   \<and> countOfUnreadMessages m = Some (total_unread m t)
   \<and> item_countOfUnreadMessages m (m_rootItem m) = Some (total_unread m t)"
  using countOfUnreadMessages_tree[of m t] hasAnyFeedNewMessages_tree[of m t]
  by (simp add: notifyWithCounts_def emit_def countOfUnreadMessages_def)

theorem notifyWithCounts_pair_witness:
  "notifyWithCounts example_model = Some (example_model\<lparr>emitted := [messageCountsChanged 5 True]\<rparr>)"
proof -
  have u: "total_unread example_model example_tree = 5"
    by (simp add: total_unread_def tree_feeds_def example_tree_def is_feed_def unread_of_def)
  have n: "\<exists>p\<in>set (nodes example_tree). is_feed example_model p \<and> has_new_messages example_model p"
    by (simp add: example_tree_def is_feed_def has_new_messages_def)
  from notifyWithCounts_pair [OF example_well_formed] u n show ?thesis by simp
qed

subsection \<open>Change notification\<close>

lemma emitted_update_core [simp]:
  "itemForIndex (m\<lparr>emitted := e\<rparr>) = itemForIndex m"
  "deref (m\<lparr>emitted := e\<rparr>) = deref m"
  "row_of (m\<lparr>emitted := e\<rparr>) = row_of m"
  "createIndex (m\<lparr>emitted := e\<rparr>) = createIndex m"
  "columnCount (m\<lparr>emitted := e\<rparr>) = columnCount m"
  "is_feed (m\<lparr>emitted := e\<rparr>) = is_feed m"
  "unread_of (m\<lparr>emitted := e\<rparr>) = unread_of m"
  "has_new_messages (m\<lparr>emitted := e\<rparr>) = has_new_messages m"
  "well_formed (m\<lparr>emitted := e\<rparr>) = well_formed m"
  by (simp_all add: fun_eq_iff itemForIndex_def deref_def row_of_def createIndex_def columnCount_def
      is_feed_def unread_of_def has_new_messages_def well_formed_def
      cong: option.case_cong if_cong)

lemma emitted_update_index [simp]:
  "rowCount (m\<lparr>emitted := e\<rparr>) = rowCount m"
  "hasIndex (m\<lparr>emitted := e\<rparr>) = hasIndex m"
  "index (m\<lparr>emitted := e\<rparr>) = index m"
  "parent (m\<lparr>emitted := e\<rparr>) = parent m"
  "index_parent (m\<lparr>emitted := e\<rparr>) = index_parent m"
  "anchored (m\<lparr>emitted := e\<rparr>) = anchored m"
  "coordinate_of (m\<lparr>emitted := e\<rparr>) = coordinate_of m"
  "row_signal (m\<lparr>emitted := e\<rparr>) = row_signal m"
  "tree_feeds (m\<lparr>emitted := e\<rparr>) = tree_feeds m"
  "total_unread (m\<lparr>emitted := e\<rparr>) = total_unread m"
proof -
  show a: "rowCount (m\<lparr>emitted := e\<rparr>) = rowCount m"
    by (simp add: fun_eq_iff rowCount_def cong: option.case_cong if_cong)
  show b: "hasIndex (m\<lparr>emitted := e\<rparr>) = hasIndex m"
    by (simp add: fun_eq_iff hasIndex_def a cong: option.case_cong if_cong)
  show "index (m\<lparr>emitted := e\<rparr>) = index m"
    by (simp add: fun_eq_iff index_def b cong: option.case_cong if_cong)
  show c: "parent (m\<lparr>emitted := e\<rparr>) = parent m"
    by (simp add: fun_eq_iff parent_def cong: option.case_cong if_cong)
  show "index_parent (m\<lparr>emitted := e\<rparr>) = index_parent m"
    by (simp add: fun_eq_iff index_parent_def c cong: option.case_cong if_cong)
  show d: "anchored (m\<lparr>emitted := e\<rparr>) = anchored m"
    by (simp add: fun_eq_iff anchored_def cong: option.case_cong if_cong)
  show "coordinate_of (m\<lparr>emitted := e\<rparr>) = coordinate_of m"
    by (simp add: fun_eq_iff coordinate_of_def d cong: option.case_cong if_cong)
  show "row_signal (m\<lparr>emitted := e\<rparr>) = row_signal m"
    by (simp add: fun_eq_iff row_signal_def d cong: option.case_cong if_cong)
  show f: "tree_feeds (m\<lparr>emitted := e\<rparr>) = tree_feeds m"
    by (simp add: fun_eq_iff tree_feeds_def cong: option.case_cong if_cong)
  show "total_unread (m\<lparr>emitted := e\<rparr>) = total_unread m"
    by (simp add: fun_eq_iff total_unread_def f cong: option.case_cong if_cong)
qed

lemma chain_emitted:
  "chain m xs c \<Longrightarrow> chain (m\<lparr>emitted := e\<rparr>) xs c"
proof (induction rule: chain.induct)
  case chain_root
  show ?case using chain.chain_root[of "m\<lparr>emitted := e\<rparr>"] by simp
next
  case (chain_child xs q qt c)
  show ?case
    by (rule chain.chain_child[OF chain_child.IH]) (use chain_child.hyps in simp_all)
qed

lemma parent_anchored:
  assumes wf: "well_formed m t" and q: "chain m xs q" and qt: "items m q = Some qt"
    and c: "c \<in> set (m_childItems qt)" and col: "0 \<le> col"
  shows "isValid (anchored m c col) \<and> index_parent m (anchored m c col) = Some (coordinate_of m q)
         \<and> row (anchored m c col) = indexOf (m_childItems qt) c"
proof -
  from chain_child_facts[OF wf q qt c] obtain ct where
    ct: "items m c = Some ct" "m_parentItem ct = Some q" "row_of m c = Some (indexOf (m_childItems qt) c)"
      "0 \<le> indexOf (m_childItems qt) c" by auto
  have v: "isValid (anchored m c col)"
    using ct col by (simp add: anchored_def isValid_def createIndex_def)
  have r: "row (anchored m c col) = indexOf (m_childItems qt) c"
    using ct by (simp add: anchored_def createIndex_def)
  have "parent m (anchored m c col) = Some (coordinate_of m q)"
  proof (cases "q = m_rootItem m")
    case True
    with v ct show ?thesis
      by (simp add: parent_def itemForIndex_def deref_def anchored_def createIndex_def coordinate_of_def)
  next
    case False
    from chain_cases_nonroot[OF q False] obtain ys p pt where
      p: "chain m ys p" "items m p = Some pt" "q \<in> set (m_childItems pt)" by metis
    from chain_child_facts[OF wf p] have "row_of m q = Some (indexOf (m_childItems pt) q)" by auto
    with v ct False show ?thesis
      by (simp add: parent_def itemForIndex_def deref_def anchored_def createIndex_def coordinate_of_def)
  qed
  then have "index_parent m (anchored m c col) = Some (coordinate_of m q)"
    by (simp add: index_parent_def anchored_def createIndex_def)
  with v r show ?thesis by simp
qed

lemma reloadChangedLayout_chain:
  assumes wf: "well_formed m t"
  shows "chain m xs c \<Longrightarrow>
    reloadChangedLayout (m\<lparr>emitted := ev\<rparr>) [coordinate_of m c]
      = Some (m\<lparr>emitted := ev @ map (row_signal m) (rev xs)\<rparr>)"
proof (induction arbitrary: ev rule: chain.induct)
  case chain_root
  show ?case
    by (subst reloadChangedLayout.simps, subst reloadChangedLayout.simps)
       (simp add: coordinate_of_def isValid_def QModelIndex_null_def)
next
  case (chain_child xs q qt c)
  from chain_child_facts[OF wf chain_child.hyps(1,2,3)] have nr: "c \<noteq> m_rootItem m" by auto
  note pa = parent_anchored[OF wf chain_child.hyps(1,2,3), of 0, simplified]
  note i0 = index_child[OF wf chain_child.hyps(1,2,3), of 0, simplified]
  note i1 = index_child[OF wf chain_child.hyps(1,2,3), of 1, simplified]
  have "reloadChangedLayout (m\<lparr>emitted := ev\<rparr>) [coordinate_of m c]
        = reloadChangedLayout (m\<lparr>emitted := ev @ [row_signal m c]\<rparr>) [coordinate_of m q]"
    using nr pa i0 i1
    by (subst reloadChangedLayout.simps)
       (simp add: coordinate_of_def FDS_MODEL_COUNTS_INDEX_def emit_def row_signal_def)
  then show ?case using chain_child.IH[of "ev @ [row_signal m c]"] by simp
qed

lemma reloadChangedItem_chain:
  assumes wf: "well_formed m t" and c: "chain m xs c"
  shows "reloadChangedItem (m\<lparr>emitted := ev\<rparr>) (Some c)
      = Some (m\<lparr>emitted := ev @ map (row_signal m) (rev xs)\<rparr>)"
proof -
  have "well_formed (m\<lparr>emitted := ev\<rparr>) t" using wf by simp
  from indexForItem_chain[OF this chain_emitted[OF c]]
  show ?thesis
    by (simp add: reloadChangedItem_def reloadChangedLayout_chain[OF wf c])
qed

lemma reloadChangedItem_null:
  "reloadChangedItem m None = Some m"
proof -
  have "indexForItem m None = Some QModelIndex_null"
    by (subst indexForItem.simps) simp
  then show ?thesis
    by (simp add: reloadChangedItem_def)
       (subst reloadChangedLayout.simps, subst reloadChangedLayout.simps,
        simp add: isValid_def QModelIndex_null_def)
qed

lemma reload_each_chains:
  assumes wf: "well_formed m t"
  shows "list_all2 (chain_or_null m) changed routes \<Longrightarrow>
    reload_each (m\<lparr>emitted := ev\<rparr>) changed
      = Some (m\<lparr>emitted := ev @ concat (map (\<lambda>xs. map (row_signal m) (rev xs)) routes)\<rparr>)"
proof (induction arbitrary: ev rule: list_all2_induct)
  case Nil
  then show ?case by simp
next
  case (Cons item changed ys routes)
  have "reloadChangedItem (m\<lparr>emitted := ev\<rparr>) item = Some (m\<lparr>emitted := ev @ map (row_signal m) (rev ys)\<rparr>)"
  proof (cases item)
    case None
    with Cons.hyps(1) show ?thesis by (simp add: chain_or_null_def reloadChangedItem_null)
  next
    case (Some c)
    with Cons.hyps(1) have "chain m ys c" by (simp add: chain_or_null_def)
    from reloadChangedItem_chain[OF wf this] Some show ?thesis by simp
  qed
  then show ?case using Cons.IH[of "ev @ map (row_signal m) (rev ys)"] by simp
qed


lemma example_chains:
  "chain example_model [11] 11"
  "chain example_model [11, 12] 12"
  "chain example_model [11, 12, 14] 14"
proof -
  have r: "chain example_model [] 10"
    using chain.chain_root [of example_model] by simp
  show a: "chain example_model [11] 11"
    using chain.chain_child [OF r, of _ 11] by simp
  show b: "chain example_model [11, 12] 12"
    using chain.chain_child [OF a, of _ 12] by simp
  show "chain example_model [11, 12, 14] 14"
    using chain.chain_child [OF b, of _ 14] by simp
qed

text \<open>
  Claim C3. On a well-formed tree \<^verbatim>\<open>onItemDataChanged\<close> returns. When the list is
  longer than the threshold it emits \<^verbatim>\<open>layoutAboutToBeChanged\<close>, \<^verbatim>\<open>layoutChanged\<close>
  and one \<^verbatim>\<open>messageCountsChanged\<close>, and nothing else. Otherwise, for a list of
  items each of which is null or attached to the tree, it emits for every item in
  turn one \<^verbatim>\<open>dataChanged\<close> signal from column 0 to the counts column of the row of
  the item, followed by one for each of its ancestors from its parent up to the item
  below the root item, and it ends with one \<^verbatim>\<open>messageCountsChanged\<close>. A null
  pointer and the root item have the empty chain and give no row signal.
\<close>

theorem onItemDataChanged_signals:
  assumes wf: "well_formed m t"
  shows "(int (length changed) > border \<longrightarrow>
            onItemDataChanged border m changed =
              Some (m\<lparr>emitted := emitted m @
                [layoutAboutToBeChanged, layoutChanged,
                 messageCountsChanged (total_unread m t)
                   (\<exists>p\<in>set (nodes t). is_feed m p \<and> has_new_messages m p)]\<rparr>))
       \<and> (int (length changed) \<le> border \<and> list_all2 (chain_or_null m) changed routes \<longrightarrow>
            onItemDataChanged border m changed =
              Some (m\<lparr>emitted := emitted m @
                concat (map (\<lambda>xs. map (row_signal m) (rev xs)) routes) @
                [messageCountsChanged (total_unread m t)
                   (\<exists>p\<in>set (nodes t). is_feed m p \<and> has_new_messages m p)]\<rparr>))"
proof -
  have n: "notifyWithCounts (m\<lparr>emitted := ev\<rparr>) =
     Some (m\<lparr>emitted := ev @ [messageCountsChanged (total_unread m t)
           (\<exists>p\<in>set (nodes t). is_feed m p \<and> has_new_messages m p)]\<rparr>)" for ev
  proof -
    have "well_formed (m\<lparr>emitted := ev\<rparr>) t" using wf by simp
    from countOfUnreadMessages_tree[OF this] hasAnyFeedNewMessages_tree[OF this] show ?thesis
      by (simp add: notifyWithCounts_def emit_def)
  qed
  have a: "onItemDataChanged border m changed =
              Some (m\<lparr>emitted := emitted m @
                [layoutAboutToBeChanged, layoutChanged,
                 messageCountsChanged (total_unread m t)
                   (\<exists>p\<in>set (nodes t). is_feed m p \<and> has_new_messages m p)]\<rparr>)"
    if "int (length changed) > border"
    using that n[of "emitted m @ [layoutAboutToBeChanged, layoutChanged]"]
    by (simp add: onItemDataChanged_def reloadWholeLayout_def emit_def)
  have b: "onItemDataChanged border m changed =
              Some (m\<lparr>emitted := emitted m @
                concat (map (\<lambda>xs. map (row_signal m) (rev xs)) routes) @
                [messageCountsChanged (total_unread m t)
                   (\<exists>p\<in>set (nodes t). is_feed m p \<and> has_new_messages m p)]\<rparr>)"
    if le: "int (length changed) \<le> border" and ch: "list_all2 (chain_or_null m) changed routes"
  proof -
    from reload_each_chains[OF wf ch, of "emitted m"]
    have "reload_each m changed
      = Some (m\<lparr>emitted := emitted m @ concat (map (\<lambda>xs. map (row_signal m) (rev xs)) routes)\<rparr>)"
      by simp
    with le n[of "emitted m @ concat (map (\<lambda>xs. map (row_signal m) (rev xs)) routes)"]
    show ?thesis by (simp add: onItemDataChanged_def)
  qed
  from a b show ?thesis by blast
qed

theorem onItemDataChanged_signals_witness:
  "onItemDataChanged 10 example_model [Some 14, None, Some 11] =
     Some (example_model\<lparr>emitted :=
       [dataChanged (createIndex example_model 0 0 (Some 14)) (createIndex example_model 0 1 (Some 14)),
        dataChanged (createIndex example_model 0 0 (Some 12)) (createIndex example_model 0 1 (Some 12)),
        dataChanged (createIndex example_model 0 0 (Some 11)) (createIndex example_model 0 1 (Some 11)),
        dataChanged (createIndex example_model 0 0 (Some 11)) (createIndex example_model 0 1 (Some 11)),
        messageCountsChanged 5 True]\<rparr>)
   \<and> onItemDataChanged 2 example_model [Some 14, None, Some 11] =
     Some (example_model\<lparr>emitted :=
       [layoutAboutToBeChanged, layoutChanged, messageCountsChanged 5 True]\<rparr>)"
proof -
  have u: "total_unread example_model example_tree = 5"
    by (simp add: total_unread_def tree_feeds_def example_tree_def is_feed_def unread_of_def)
  have n: "\<exists>p\<in>set (nodes example_tree). is_feed example_model p \<and> has_new_messages example_model p"
    by (simp add: example_tree_def is_feed_def has_new_messages_def)
  have ch: "list_all2 (chain_or_null example_model) [Some 14, None, Some 11] [[11, 12, 14], [], [11]]"
    by (simp add: chain_or_null_def example_chains)
  have s: "row_signal example_model 14
             = dataChanged (createIndex example_model 0 0 (Some 14)) (createIndex example_model 0 1 (Some 14))"
    "row_signal example_model 12
             = dataChanged (createIndex example_model 0 0 (Some 12)) (createIndex example_model 0 1 (Some 12))"
    "row_signal example_model 11
             = dataChanged (createIndex example_model 0 0 (Some 11)) (createIndex example_model 0 1 (Some 11))"
    by (simp_all add: row_signal_def anchored_def row_of_def FDS_MODEL_COUNTS_INDEX_def)
  from onItemDataChanged_signals [OF example_well_formed,
      where changed = "[Some 14, None, Some 11]" and border = 10 and routes = "[[11, 12, 14], [], [11]]"]
    onItemDataChanged_signals [OF example_well_formed,
      where changed = "[Some 14, None, Some 11]" and border = 2 and routes = "[[11, 12, 14], [], [11]]"]
    u n ch s
  show ?thesis by simp
qed

end
